theory Spec2Isabelle
  imports Main "HOL-Library.Char_ord" "HOL-Library.List_Lexorder" "HOL-Library.Multiset"
begin

section \<open>The build script \<^verbatim>\<open>user/build.py\<close>\<close>

text \<open>
  The script lists \<^verbatim>\<open>src/bin\<close>, sorts the names, and for each name rewrites the linker
  script \<^verbatim>\<open>src/linker.ld\<close> with a per-application start address, runs
  \<^verbatim>\<open>cargo build\<close>, prints a report line and writes the linker script back.

  Python strings are modelled as \<^typ>\<open>string\<close>, Python integers as \<^typ>\<open>int\<close>.
  The script is modelled twice. The first model takes the linker script as the text
  that Python's text mode reads from it and writes to it, in which a line ends with a
  line feed, and lets every \<^verbatim>\<open>print\<close> succeed. The second model, further down, works
  on the bytes of the file and lets \<^verbatim>\<open>print\<close> raise; it agrees with the first on a
  script without carriage returns when the console can encode every report line
  (lemma \<^verbatim>\<open>main_on_disk_refines\<close>). In both, the script is assumed to exist and to be
  readable, and the external build command is assumed not to write it.
\<close>

subsection \<open>Constants (lines 4 to 7)\<close>

definition base_address :: int where
  "base_address = 0x80400000"

definition step :: int where
  "step = 0x20000"

text \<open>The expression \<^verbatim>\<open>base_address+step*app_id\<close> of lines 29 and 35.\<close>

definition address :: "int \<Rightarrow> int" where
  "address app_id = base_address + step * app_id"

subsection \<open>Python's built-in string operations used by the script\<close>

text \<open>\<^verbatim>\<open>hex(n)\<close>: lowercase digits, prefix \<^verbatim>\<open>0x\<close>, a minus sign first for a negative number.\<close>

definition hex_digit :: "int \<Rightarrow> char" where
  "hex_digit d = ''0123456789abcdef'' ! nat d"

function hex_digits :: "int \<Rightarrow> string" where
  "hex_digits n =
     (if n < 16 then [hex_digit n] else hex_digits (n div 16) @ [hex_digit (n mod 16)])"
  by pat_completeness auto
termination
  by (relation "measure nat") auto

declare hex_digits.simps [simp del]

definition hex :: "int \<Rightarrow> string" where
  "hex n = (if n < 0 then ''-0x'' @ hex_digits (- n) else ''0x'' @ hex_digits n)"

text \<open>
  \<^verbatim>\<open>s.find(sub)\<close>: the lowest index at which \<^verbatim>\<open>sub\<close> occurs in \<^verbatim>\<open>s\<close>, or \<^verbatim>\<open>-1\<close>.
\<close>

fun find_from :: "string \<Rightarrow> string \<Rightarrow> int \<Rightarrow> int" where
  "find_from [] sub i = (if sub = [] then i else - 1)"
| "find_from (c # cs) sub i =
     (if take (length sub) (c # cs) = sub then i else find_from cs sub (i + 1))"

definition find :: "string \<Rightarrow> string \<Rightarrow> int" where
  "find s sub = find_from s sub 0"

text \<open>
  The slice \<^verbatim>\<open>s[:k]\<close>: a negative \<^verbatim>\<open>k\<close> counts from the end of the string, and the
  bound is clipped to the string.
\<close>

definition slice_to :: "string \<Rightarrow> int \<Rightarrow> string" where
  "slice_to s k = (if k < 0 then take (nat (int (length s) + k)) s else take (nat k) s)"

text \<open>
  \<^verbatim>\<open>s.replace(old, new)\<close>: every occurrence of \<^verbatim>\<open>old\<close>, found from left to right
  without overlap, becomes \<^verbatim>\<open>new\<close>; an empty \<^verbatim>\<open>old\<close> matches before every character
  and at the end.
\<close>

function replace :: "string \<Rightarrow> string \<Rightarrow> string \<Rightarrow> string" where
  "replace old new [] = (if old = [] then new else [])"
| "replace old new (c # cs) =
     (if old = [] then new @ c # replace old new cs
      else if take (length old) (c # cs) = old
        then new @ replace old new (drop (length old) (c # cs))
        else c # replace old new cs)"
  by pat_completeness auto
termination
  by (relation "measure (\<lambda>(old, new, s). length s)") auto

text \<open>\<^verbatim>\<open>sub in s\<close>: does \<^verbatim>\<open>sub\<close> occur in \<^verbatim>\<open>s\<close>?\<close>

fun contains :: "string \<Rightarrow> string \<Rightarrow> bool" where
  "contains [] sub = (sub = [])"
| "contains (c # cs) sub = (take (length sub) (c # cs) = sub \<or> contains cs sub)"

subsection \<open>The world the script acts on\<close>

text \<open>
  An event is a call of \<^verbatim>\<open>os.system\<close> (the command, the linker script the command
  finds on disk, and the exit status it returns) or a line printed on the console.
\<close>

datatype event = System string string int | Print string

record world =
  linker_file :: string
  trace :: "event list"

text \<open>
  The external build: from the command and the linker script on disk to an exit
  status. It is a parameter of the model.
\<close>

type_synonym builder = "string \<Rightarrow> string \<Rightarrow> int"

text \<open>
  \<^verbatim>\<open>f.readlines()\<close> on the text of the file: the lines, each with its line feed. What
  text mode makes of the bytes of the file before that is \<^verbatim>\<open>universal_newlines\<close> below.
\<close>

fun readlines :: "string \<Rightarrow> string list" where
  "readlines [] = []"
| "readlines (c # cs) =
     (if c = CHR 0x0A then [c] # readlines cs
      else (case readlines cs of [] \<Rightarrow> [[c]] | l # ls \<Rightarrow> (c # l) # ls))"

text \<open>\<^verbatim>\<open>open(linker, 'w+')\<close> followed by \<^verbatim>\<open>f.writelines(ls)\<close>: the file becomes the lines, joined.\<close>

definition writelines :: "string list \<Rightarrow> world \<Rightarrow> world" where
  "writelines ls w = w\<lparr>linker_file := concat ls\<rparr>"

definition os_system :: "builder \<Rightarrow> string \<Rightarrow> world \<Rightarrow> int \<times> world" where
  "os_system sys cmd w =
     (let status = sys cmd (linker_file w)
      in (status, w\<lparr>trace := trace w @ [System cmd (linker_file w) status]\<rparr>))"

text \<open>
  \<^verbatim>\<open>print\<close> when the console can encode the line; \<^verbatim>\<open>body_on_disk\<close> below has the
  case in which it raises.
\<close>

definition print :: "string \<Rightarrow> world \<Rightarrow> world" where
  "print line w = w\<lparr>trace := trace w @ [Print line]\<rparr>"

subsection \<open>The main loop (lines 10 to 38)\<close>

text \<open>The loop over the lines of the linker script (lines 22 to 30).\<close>

fun read_loop :: "string list \<Rightarrow> int \<Rightarrow> string list \<times> string list \<Rightarrow> string list \<times> string list" where
  "read_loop [] app_id (lines, lines_before) = (lines, lines_before)"
| "read_loop (line # rest) app_id (lines, lines_before) =
     (let lines_before' = lines_before @ [line];
          line' = replace (hex base_address) (hex (base_address + step * app_id)) line;
          lines' = lines @ [line']
      in read_loop rest app_id (lines', lines_before'))"

text \<open>The expression \<^verbatim>\<open>app[:app.find('.')]\<close> of line 17.\<close>

definition identity :: "string \<Rightarrow> string" where
  "identity app = slice_to app (find app ''.'')"

text \<open>The two format strings of lines 34 and 35.\<close>

definition build_command :: "string \<Rightarrow> string" where
  "build_command app = ''cargo build --bin '' @ app @ '' --release''"

definition report_line :: "string \<Rightarrow> string \<Rightarrow> string" where
  "report_line app addr = ''[build.py] application '' @ app @ '' start with address '' @ addr"

text \<open>
  One round of the loop over the applications (lines 17 to 38). The exit status of
  \<^verbatim>\<open>os.system\<close> is not bound to anything in the script.
\<close>

definition body :: "builder \<Rightarrow> string \<Rightarrow> int \<Rightarrow> world \<Rightarrow> int \<times> world" where
  "body sys app0 app_id w =
     (let app = identity app0;
          (lines, lines_before) = read_loop (readlines (linker_file w)) app_id ([], []);
          w1 = writelines lines w;
          (status, w2) = os_system sys (build_command app) w1;
          w3 = print (report_line app (hex (base_address + step * app_id))) w2;
          w4 = writelines lines_before w3
      in (app_id + 1, w4))"

fun main_loop :: "builder \<Rightarrow> string list \<Rightarrow> int \<Rightarrow> world \<Rightarrow> int \<times> world" where
  "main_loop sys [] app_id w = (app_id, w)"
| "main_loop sys (app # apps) app_id w =
     (case body sys app app_id w of (app_id', w') \<Rightarrow> main_loop sys apps app_id' w')"

text \<open>
  The whole script: \<^verbatim>\<open>listing\<close> is what \<^verbatim>\<open>os.listdir('src/bin')\<close> returns, in the
  order the operating system gives it.
\<close>

definition main :: "builder \<Rightarrow> string list \<Rightarrow> world \<Rightarrow> world" where
  "main sys listing w = snd (main_loop sys (sort listing) 0 w)"

subsection \<open>What a run is expected to do\<close>

text \<open>
  The linker script with every occurrence of the base address literal replaced by the
  literal of the address of application \<^verbatim>\<open>app_id\<close>, the replacement being done on the
  whole text at once.
\<close>

definition patched :: "int \<Rightarrow> string \<Rightarrow> string" where
  "patched app_id content = replace (hex base_address) (hex (address app_id)) content"

text \<open>
  The events of a run over the names \<^verbatim>\<open>ns\<close> that starts with ordinal \<^verbatim>\<open>k\<close> on the linker
  script \<^verbatim>\<open>t\<close>: for each name a build, which sees the patched script, then a report.
\<close>

fun expected :: "builder \<Rightarrow> string \<Rightarrow> string list \<Rightarrow> int \<Rightarrow> event list" where
  "expected sys t [] k = []"
| "expected sys t (n # ns) k =
     System (build_command (identity n)) (patched k t)
            (sys (build_command (identity n)) (patched k t))
     # Print (report_line (identity n) (hex (address k)))
     # expected sys t ns (k + 1)"

text \<open>What a trace shows: the console, the commands run, the linker script each
  command found on disk, and the exit statuses.\<close>

fun prints :: "event list \<Rightarrow> string list" where
  "prints [] = []"
| "prints (Print l # es) = l # prints es"
| "prints (System c t r # es) = prints es"

fun commands :: "event list \<Rightarrow> string list" where
  "commands [] = []"
| "commands (Print l # es) = commands es"
| "commands (System c t r # es) = c # commands es"

fun seen :: "event list \<Rightarrow> string list" where
  "seen [] = []"
| "seen (Print l # es) = seen es"
| "seen (System c t r # es) = t # seen es"

fun statuses :: "event list \<Rightarrow> int list" where
  "statuses [] = []"
| "statuses (Print l # es) = statuses es"
| "statuses (System c t r # es) = r # statuses es"

text \<open>The identities in the order in which the loop takes them (lines 12, 15 and 17).\<close>

definition processed :: "string list \<Rightarrow> string list" where
  "processed listing = map identity (sort listing)"

text \<open>The part of a name before its first full stop, the whole name if it has none.\<close>

definition before_first_separator :: "string \<Rightarrow> string" where
  "before_first_separator name = takeWhile (\<lambda>c. c \<noteq> CHR ''.'') name"

text \<open>The number a string of lowercase hexadecimal digits stands for.\<close>

definition digit_value :: "char \<Rightarrow> int" where
  "digit_value c = int (length (takeWhile (\<lambda>d. d \<noteq> c) ''0123456789abcdef''))"

definition hex_value :: "string \<Rightarrow> int" where
  "hex_value ds = foldl (\<lambda>acc c. 16 * acc + digit_value c) 0 ds"

text \<open>Two builders, one that always succeeds and one that always fails, and two linker
  scripts, one with the base address literal and one that spells it differently.\<close>

definition build_ok :: builder where
  "build_ok cmd content = 0"

definition build_fails :: builder where
  "build_fails cmd content = 1"

definition linker_ld :: string where
  "linker_ld = ''OUTPUT_ARCH(riscv)\<newline>BASE_ADDRESS = 0x80400000;\<newline>SECTIONS\<newline>''"

definition linker_ld_upper :: string where
  "linker_ld_upper = ''OUTPUT_ARCH(riscv)\<newline>BASE_ADDRESS = 0X80400000;\<newline>SECTIONS\<newline>''"

subsection \<open>Replacing every occurrence, said without \<^verbatim>\<open>replace\<close>\<close>

text \<open>
  The parts of a text between the occurrences of \<^verbatim>\<open>old\<close>, the occurrences being taken
  from left to right without overlap: a text with \<^verbatim>\<open>n\<close> occurrences has \<^verbatim>\<open>n + 1\<close> parts,
  some of which may be empty. An empty \<^verbatim>\<open>old\<close> cuts nothing.
\<close>

function pieces :: "string \<Rightarrow> string \<Rightarrow> string list" where
  "pieces old [] = [[]]"
| "pieces old (c # cs) =
     (if old \<noteq> [] \<and> take (length old) (c # cs) = old
      then [] # pieces old (drop (length old) (c # cs))
      else (case pieces old cs of [] \<Rightarrow> [[c]] | p # ps \<Rightarrow> (c # p) # ps))"
  by pat_completeness auto
termination
  by (relation "measure (\<lambda>(old, s). length s)") auto

text \<open>The parts put together again with \<^verbatim>\<open>sep\<close> between each two of them.\<close>

fun join :: "string \<Rightarrow> string list \<Rightarrow> string" where
  "join sep [] = []"
| "join sep [p] = p"
| "join sep (p # q # ps) = p @ sep @ join sep (q # ps)"

subsection \<open>The script on the bytes of the file, with a console that can refuse a line\<close>

text \<open>
  The definitions above take the linker script as text and let every \<^verbatim>\<open>print\<close>
  succeed. The definitions below drop both simplifications; \<^verbatim>\<open>linker_file\<close> now holds
  the bytes on disk.

  \<^verbatim>\<open>open(linker, 'r')\<close> opens the script in text mode with universal newlines: while
  reading, a carriage return followed by a line feed, and a carriage return alone,
  become one line feed. \<^verbatim>\<open>open(linker, 'w+')\<close> on a POSIX host writes the text as it
  is. The bytes are taken to be decodable.
\<close>

fun universal_newlines :: "string \<Rightarrow> string" where
  "universal_newlines [] = []"
| "universal_newlines [c] = [if c = CHR 0x0D then CHR 0x0A else c]"
| "universal_newlines (c # d # ds) =
     (if c = CHR 0x0D \<and> d = CHR 0x0A then CHR 0x0A # universal_newlines ds
      else if c = CHR 0x0D then CHR 0x0A # universal_newlines (d # ds)
      else c # universal_newlines (d # ds))"

text \<open>
  \<^verbatim>\<open>print\<close> raises \<^verbatim>\<open>UnicodeEncodeError\<close> for a line that the encoding of the console
  cannot encode. The console is a parameter: the lines it can encode.
\<close>

datatype error = UnicodeEncodeError

type_synonym console = "string \<Rightarrow> bool"

text \<open>
  One round of the loop (lines 17 to 38). Nothing in the script catches an exception:
  when \<^verbatim>\<open>print\<close> raises at line 35, lines 36 to 38 are not run and the script ends
  with the world as it is at that moment.
\<close>

definition body_on_disk ::
  "console \<Rightarrow> builder \<Rightarrow> string \<Rightarrow> int \<Rightarrow> world \<Rightarrow> error \<times> world + int \<times> world" where
  "body_on_disk con sys app0 app_id w =
     (let app = identity app0;
          (lines, lines_before) =
             read_loop (readlines (universal_newlines (linker_file w))) app_id ([], []);
          w1 = writelines lines w;
          (status, w2) = os_system sys (build_command app) w1;
          line = report_line app (hex (base_address + step * app_id))
      in if con line
         then (let w3 = print line w2;
                   w4 = writelines lines_before w3
               in Inr (app_id + 1, w4))
         else Inl (UnicodeEncodeError, w2))"

fun main_loop_on_disk ::
  "console \<Rightarrow> builder \<Rightarrow> string list \<Rightarrow> int \<Rightarrow> world \<Rightarrow> error \<times> world + int \<times> world" where
  "main_loop_on_disk con sys [] app_id w = Inr (app_id, w)"
| "main_loop_on_disk con sys (app # apps) app_id w =
     (case body_on_disk con sys app app_id w of
        Inl failure \<Rightarrow> Inl failure
      | Inr (app_id', w') \<Rightarrow> main_loop_on_disk con sys apps app_id' w')"

definition main_on_disk ::
  "console \<Rightarrow> builder \<Rightarrow> string list \<Rightarrow> world \<Rightarrow> error \<times> world + world" where
  "main_on_disk con sys listing w =
     (case main_loop_on_disk con sys (sort listing) 0 w of
        Inl failure \<Rightarrow> Inl failure
      | Inr (app_id, w') \<Rightarrow> Inr w')"

text \<open>The exception a run ended with, if any, and the world a run leaves behind.\<close>

fun raised :: "error \<times> world + world \<Rightarrow> error option" where
  "raised (Inl (e, w)) = Some e"
| "raised (Inr w) = None"

fun left_behind :: "error \<times> world + world \<Rightarrow> world" where
  "left_behind (Inl (e, w)) = w"
| "left_behind (Inr w) = w"

text \<open>The same for one round of the loop.\<close>

fun round_raised :: "error \<times> world + int \<times> world \<Rightarrow> error option" where
  "round_raised (Inl (e, w)) = Some e"
| "round_raised (Inr (k, w)) = None"

fun round_left_behind :: "error \<times> world + int \<times> world \<Rightarrow> world" where
  "round_left_behind (Inl (e, w)) = w"
| "round_left_behind (Inr (k, w)) = w"

text \<open>The report lines of a run over the names \<^verbatim>\<open>ns\<close> that starts with ordinal \<^verbatim>\<open>k\<close>.\<close>

fun reports :: "string list \<Rightarrow> int \<Rightarrow> string list" where
  "reports [] k = []"
| "reports (n # ns) k = report_line (identity n) (hex (address k)) # reports ns (k + 1)"

text \<open>
  A console that encodes the ASCII characters only, a linker script whose lines end
  with carriage return and line feed, and a name with a character beyond ASCII.
\<close>

definition console_ascii :: console where
  "console_ascii line = list_all (\<lambda>c. (of_char c :: nat) < 128) line"

definition linker_ld_crlf :: string where
  "linker_ld_crlf = ''BASE_ADDRESS = 0x80400000;'' @ [CHR 0x0D, CHR 0x0A]"

definition name_beyond_ascii :: string where
  "name_beyond_ascii = ''b'' @ [CHR 0xE9] @ ''.rs''"

section \<open>Properties of the string operations\<close>

lemma concat_readlines: "concat (readlines s) = s"
  by (induction s) (auto split: list.splits)

lemma read_loop_eq:
  "read_loop ls k (a, b) =
     (a @ map (replace (hex base_address) (hex (base_address + step * k))) ls, b @ ls)"
  by (induction ls arbitrary: a b) (simp_all add: Let_def)

lemma take_append_linefeed:
  assumes "CHR 0x0A \<notin> set old" "take (length old) (l @ CHR 0x0A # r) = old"
  shows "length old \<le> length l"
proof (rule ccontr)
  assume "\<not> length old \<le> length l"
  then have "length l < length old" by simp
  then have "old ! length l = (l @ CHR 0x0A # r) ! length l"
    using assms(2) by (metis nth_take)
  then have "old ! length l = CHR 0x0A" by simp
  with \<open>length l < length old\<close> assms(1) show False
    by (metis nth_mem)
qed

lemma replace_across_linefeed:
  assumes "old \<noteq> []" "CHR 0x0A \<notin> set old"
  shows "replace old new (l @ CHR 0x0A # r) = replace old new l @ CHR 0x0A # replace old new r"
proof (induction l rule: length_induct)
  case (1 l)
  show ?case
  proof (cases l)
    case Nil
    have "take (length old) (CHR 0x0A # r) \<noteq> old"
      using assms by (cases old) auto
    with Nil assms show ?thesis by simp
  next
    case (Cons c cs)
    show ?thesis
    proof (cases "take (length old) (c # cs @ CHR 0x0A # r) = old")
      case True
      then have le: "length old \<le> length l"
        using take_append_linefeed [OF assms(2), of l r] Cons by simp
      then have t: "take (length old) (c # cs) = old"
        using True Cons by (metis append_Cons take_append diff_is_0_eq take_0 append_Nil2)
      have d: "drop (length old) (c # cs @ CHR 0x0A # r) = drop (length old) (c # cs) @ CHR 0x0A # r"
        using le Cons by (metis append_Cons drop_append diff_is_0_eq drop_0)
      have "length (drop (length old) (c # cs)) < length l"
        using assms(1) Cons by simp
      then have ih: "replace old new (drop (length old) (c # cs) @ CHR 0x0A # r)
          = replace old new (drop (length old) (c # cs)) @ CHR 0x0A # replace old new r"
        using "1.IH" by blast
      show ?thesis
        using True t d ih assms(1) Cons by simp
    next
      case False
      then have nt: "take (length old) (c # cs) \<noteq> old"
        by (metis append_Cons take_append append_eq_conv_conj append_take_drop_id length_take min.absorb2 take_all nat_le_linear take_take)
      have "length cs < length l" using Cons by simp
      then have ih: "replace old new (cs @ CHR 0x0A # r)
          = replace old new cs @ CHR 0x0A # replace old new r"
        using "1.IH" by blast
      show ?thesis
        using False nt ih assms(1) Cons by simp
    qed
  qed
qed

section \<open>What a run does\<close>

lemma readlines_no_linefeed:
  "CHR 0x0A \<notin> set l \<Longrightarrow> readlines l = (if l = [] then [] else [l])"
  by (induction l) (auto split: list.splits)

lemma readlines_linefeed:
  "CHR 0x0A \<notin> set l \<Longrightarrow> readlines (l @ CHR 0x0A # r) = (l @ [CHR 0x0A]) # readlines r"
  by (induction l) (auto split: list.splits)

lemma replace_no_linefeed_lines:
  assumes "old \<noteq> []" "CHR 0x0A \<notin> set old"
  shows "concat (map (replace old new) (readlines s)) = replace old new s"
proof (induction s rule: length_induct)
  case (1 s)
  show ?case
  proof (cases "CHR 0x0A \<in> set s")
    case False
    then show ?thesis using assms(1) by (simp add: readlines_no_linefeed)
  next
    case True
    then obtain l r where s: "s = l @ CHR 0x0A # r" and l: "CHR 0x0A \<notin> set l"
      by (meson split_list_first)
    have "length r < length s" using s by simp
    then have ih: "concat (map (replace old new) (readlines r)) = replace old new r"
      using "1.IH" by blast
    have "replace old new (l @ [CHR 0x0A]) = replace old new l @ [CHR 0x0A]"
      using replace_across_linefeed [OF assms, of new l "[]"] assms(1) by simp
    then show ?thesis
      using s l ih replace_across_linefeed [OF assms, of new l r]
      by (simp add: readlines_linefeed)
  qed
qed

lemma hex_base_address: "hex base_address = ''0x80400000''"
  by code_simp

lemma address_eq: "base_address + step * k = address k"
  by (simp add: address_def)

lemma patched_lines:
  "concat (map (replace (hex base_address) (hex (address k))) (readlines t)) = patched k t"
  unfolding patched_def by (rule replace_no_linefeed_lines) (simp_all add: hex_base_address)

lemma body_eq:
  "body sys n k w =
     (k + 1, w\<lparr>trace := trace w @
        [System (build_command (identity n)) (patched k (linker_file w))
                (sys (build_command (identity n)) (patched k (linker_file w))),
         Print (report_line (identity n) (hex (address k)))]\<rparr>)"
  by (simp add: body_def read_loop_eq address_eq patched_lines concat_readlines
        writelines_def os_system_def print_def Let_def)

lemma main_loop_eq:
  "main_loop sys ns k w =
     (k + int (length ns), w\<lparr>trace := trace w @ expected sys (linker_file w) ns k\<rparr>)"
  by (induction ns arbitrary: k w) (simp_all add: body_eq)

lemma main_eq:
  "main sys listing w = w\<lparr>trace := trace w @ expected sys (linker_file w) (sort listing) 0\<rparr>"
  by (simp add: main_def main_loop_eq)

lemma prints_append: "prints (es @ fs) = prints es @ prints fs"
  by (induction es rule: prints.induct) simp_all

lemma commands_append: "commands (es @ fs) = commands es @ commands fs"
  by (induction es rule: commands.induct) simp_all

lemma seen_append: "seen (es @ fs) = seen es @ seen fs"
  by (induction es rule: seen.induct) simp_all

lemma statuses_append: "statuses (es @ fs) = statuses es @ statuses fs"
  by (induction es rule: statuses.induct) simp_all

lemma upt_shift: "map f [0..<Suc n] = f 0 # map (\<lambda>i. f (Suc i)) [0..<n]"
  by (simp add: map_upt_Suc del: upt_Suc)

lemma seen_expected:
  "seen (expected sys t ns k) = map (\<lambda>i. patched (k + int i) t) [0..<length ns]"
proof (induction ns arbitrary: k)
  case Nil
  show ?case by simp
next
  case (Cons n ns)
  have "map (\<lambda>i. patched (k + int i) t) [0..<length (n # ns)]
      = patched k t # map (\<lambda>i. patched (k + 1 + int i) t) [0..<length ns]"
    by (simp add: upt_shift add.assoc del: upt_Suc)
  with Cons show ?case by simp
qed

lemma prints_expected:
  "prints (expected sys t ns k)
     = map (\<lambda>i. report_line (identity (ns ! i)) (hex (address (k + int i)))) [0..<length ns]"
proof (induction ns arbitrary: k)
  case Nil
  show ?case by simp
next
  case (Cons n ns)
  have "map (\<lambda>i. report_line (identity ((n # ns) ! i)) (hex (address (k + int i)))) [0..<length (n # ns)]
      = report_line (identity n) (hex (address k))
        # map (\<lambda>i. report_line (identity (ns ! i)) (hex (address (k + 1 + int i)))) [0..<length ns]"
    by (simp add: upt_shift add.assoc del: upt_Suc)
  with Cons show ?case by simp
qed

lemma commands_expected:
  "commands (expected sys t ns k) = map (\<lambda>n. build_command (identity n)) ns"
  by (induction ns arbitrary: k) simp_all

lemma statuses_expected:
  "statuses (expected sys t ns k)
     = map (\<lambda>i. sys (build_command (identity (ns ! i))) (patched (k + int i) t)) [0..<length ns]"
proof (induction ns arbitrary: k)
  case Nil
  show ?case by simp
next
  case (Cons n ns)
  have "map (\<lambda>i. sys (build_command (identity ((n # ns) ! i))) (patched (k + int i) t)) [0..<length (n # ns)]
      = sys (build_command (identity n)) (patched k t)
        # map (\<lambda>i. sys (build_command (identity (ns ! i))) (patched (k + 1 + int i) t)) [0..<length ns]"
    by (simp add: upt_shift add.assoc del: upt_Suc)
  with Cons show ?case by simp
qed

subsection \<open>The hexadecimal literal\<close>

lemma hex_digit_cases:
  assumes "0 \<le> d" "d < 16"
  shows "d = 0 \<or> d = 1 \<or> d = 2 \<or> d = 3 \<or> d = 4 \<or> d = 5 \<or> d = 6 \<or> d = 7
       \<or> d = 8 \<or> d = 9 \<or> d = 10 \<or> d = 11 \<or> d = 12 \<or> d = 13 \<or> d = 14 \<or> d = (15::int)"
  using assms by arith

lemma digit_value_hex_digit:
  assumes "0 \<le> d" "d < 16"
  shows "digit_value (hex_digit d) = d"
  using hex_digit_cases [OF assms]
  by (elim disjE) (simp_all add: digit_value_def hex_digit_def)

lemma hex_digit_lowercase:
  assumes "0 \<le> d" "d < 16"
  shows "hex_digit d \<in> set ''0123456789abcdef''"
  using hex_digit_cases [OF assms]
  by (elim disjE) (simp_all add: hex_digit_def)

lemma hex_digit_nonzero:
  assumes "0 < d" "d < 16"
  shows "hex_digit d \<noteq> CHR ''0''"
proof -
  have "0 \<le> d" using assms by simp
  from hex_digit_cases [OF this assms(2)] assms(1) show ?thesis
    by (elim disjE) (simp_all add: hex_digit_def)
qed

lemma hex_digits_nonempty: "hex_digits n \<noteq> []"
  by (subst hex_digits.simps) simp

lemma hex_value_snoc: "hex_value (ds @ [c]) = 16 * hex_value ds + digit_value c"
  by (simp add: hex_value_def)

lemma hex_value_hex_digits: "0 \<le> n \<Longrightarrow> hex_value (hex_digits n) = n"
proof (induction n rule: hex_digits.induct)
  case (1 n)
  show ?case
  proof (cases "n < 16")
    case True
    with "1.prems" show ?thesis
      by (subst hex_digits.simps) (simp add: hex_value_def digit_value_hex_digit)
  next
    case False
    then have "hex_value (hex_digits (n div 16)) = n div 16"
      using "1.IH" "1.prems" by simp
    moreover have "digit_value (hex_digit (n mod 16)) = n mod 16"
      by (rule digit_value_hex_digit) simp_all
    ultimately show ?thesis
      using False by (subst hex_digits.simps) (simp add: hex_value_snoc)
  qed
qed

lemma hex_digits_lowercase: "0 \<le> n \<Longrightarrow> set (hex_digits n) \<subseteq> set ''0123456789abcdef''"
proof (induction n rule: hex_digits.induct)
  case (1 n)
  show ?case
  proof (cases "n < 16")
    case True
    with "1.prems" hex_digit_lowercase [of n] show ?thesis
      by (subst hex_digits.simps) simp
  next
    case False
    then have "set (hex_digits (n div 16)) \<subseteq> set ''0123456789abcdef''"
      using "1.IH" "1.prems" by simp
    moreover have "hex_digit (n mod 16) \<in> set ''0123456789abcdef''"
      by (rule hex_digit_lowercase) simp_all
    ultimately show ?thesis
      using False by (subst hex_digits.simps) simp
  qed
qed

lemma hex_digits_no_padding: "0 < n \<Longrightarrow> hd (hex_digits n) \<noteq> CHR ''0''"
proof (induction n rule: hex_digits.induct)
  case (1 n)
  show ?case
  proof (cases "n < 16")
    case True
    with "1.prems" hex_digit_nonzero [of n] show ?thesis
      by (subst hex_digits.simps) simp
  next
    case False
    then have "0 < n div 16" by simp
    then have "hd (hex_digits (n div 16)) \<noteq> CHR ''0''"
      using "1.IH" False by simp
    then show ?thesis
      using False hex_digits_nonempty [of "n div 16"]
      by (subst hex_digits.simps) simp
  qed
qed

lemma address_positive: "0 < address (int k)"
  by (simp add: address_def base_address_def step_def)

lemma hex_address: "hex (address (int k)) = ''0x'' @ hex_digits (address (int k))"
  using address_positive [of k] by (simp add: hex_def)

subsection \<open>Names, sorting and absent literals\<close>

lemma find_from_absent: "CHR ''.'' \<notin> set s \<Longrightarrow> find_from s ''.'' i = - 1"
  by (induction s arbitrary: i) auto

lemma find_from_present:
  "CHR ''.'' \<in> set s \<Longrightarrow>
     find_from s ''.'' i = i + int (length (takeWhile (\<lambda>c. c \<noteq> CHR ''.'') s))"
  by (induction s arbitrary: i) auto

lemma identity_with_separator:
  assumes "CHR ''.'' \<in> set name"
  shows "identity name = before_first_separator name"
proof -
  have "find name ''.'' = int (length (takeWhile (\<lambda>c. c \<noteq> CHR ''.'') name))"
    using assms by (simp add: find_def find_from_present)
  then have "identity name = take (length (takeWhile (\<lambda>c. c \<noteq> CHR ''.'') name)) name"
    by (simp add: identity_def slice_to_def)
  also have "\<dots> = takeWhile (\<lambda>c. c \<noteq> CHR ''.'') name"
    by (rule takeWhile_eq_take [symmetric])
  finally show ?thesis by (simp add: before_first_separator_def)
qed

lemma identity_without_separator:
  assumes "CHR ''.'' \<notin> set name"
  shows "identity name = butlast name"
proof -
  have "find name ''.'' = - 1"
    using assms by (simp add: find_def find_from_absent)
  moreover have "nat (int (length name) - 1) = length name - 1"
    by arith
  ultimately show ?thesis
    by (simp add: identity_def slice_to_def butlast_conv_take)
qed

lemma sort_permuted: "mset xs = mset ys \<Longrightarrow> sort xs = sort (ys :: string list)"
  by (rule properties_for_sort) simp_all

lemma replace_absent: "\<not> contains s old \<Longrightarrow> replace old new s = s"
proof (induction s)
  case Nil
  then show ?case by simp
next
  case (Cons c cs)
  then show ?case by auto
qed

lemma contains_iff: "contains s sub \<longleftrightarrow> (\<exists>a b. s = a @ sub @ b)"
proof (induction s)
  case Nil
  show ?case by auto
next
  case (Cons c cs)
  show ?case
  proof
    assume "contains (c # cs) sub"
    then consider "take (length sub) (c # cs) = sub" | "contains cs sub" by auto
    then show "\<exists>a b. c # cs = a @ sub @ b"
    proof cases
      case 1
      then have "c # cs = [] @ sub @ drop (length sub) (c # cs)"
        by (metis append_Nil append_take_drop_id)
      then show ?thesis by blast
    next
      case 2
      then obtain a b where "cs = a @ sub @ b" using Cons by blast
      then have "c # cs = (c # a) @ sub @ b" by simp
      then show ?thesis by blast
    qed
  next
    assume "\<exists>a b. c # cs = a @ sub @ b"
    then obtain a b where ab: "c # cs = a @ sub @ b" by blast
    show "contains (c # cs) sub"
    proof (cases a)
      case Nil
      with ab have "take (length sub) (c # cs) = sub" by simp
      then show ?thesis by simp
    next
      case (Cons x xs)
      with ab have "cs = xs @ sub @ b" by simp
      then have "contains cs sub" using Cons.IH by blast
      then show ?thesis by simp
    qed
  qed
qed

text \<open>
  What \<^const>\<open>replace\<close> does at the first occurrence of \<^verbatim>\<open>old\<close>: the text before it is
  kept, the occurrence becomes \<^verbatim>\<open>new\<close>, and the replacement goes on behind it.
\<close>

lemma replace_at_occurrence:
  "old \<noteq> [] \<Longrightarrow> replace old new (old @ b) = new @ replace old new b"
  by (cases old) simp_all

lemma replace_first_occurrence:
  assumes "old \<noteq> []" "\<not> contains (a @ butlast old) old"
  shows "replace old new (a @ old @ b) = a @ new @ replace old new b"
  using assms(2)
proof (induction a)
  case Nil
  show ?case using assms(1) by (simp add: replace_at_occurrence)
next
  case (Cons x xs)
  have split: "x # xs @ old @ b = (x # xs @ butlast old) @ (last old # b)"
    using assms(1) by simp
  have "length old \<le> length (x # xs @ butlast old)"
    by simp
  then have "take (length old) ((x # xs @ butlast old) @ (last old # b))
      = take (length old) (x # xs @ butlast old)"
    by (metis take_append diff_is_0_eq take_0 append_Nil2)
  moreover have "take (length old) (x # xs @ butlast old) \<noteq> old"
    using Cons.prems by simp
  ultimately have "take (length old) (x # xs @ old @ b) \<noteq> old"
    using split by metis
  moreover have "replace old new (xs @ old @ b) = xs @ new @ replace old new b"
    using Cons by simp
  ultimately show ?case
    using assms(1) by simp
qed

lemma sort_example: "sort [''bravo.x'', ''alpha.x''] = [''alpha.x'', ''bravo.x'']"
  by simp

lemma sort_example_sorted: "sort [''alpha.x'', ''bravo.x''] = [''alpha.x'', ''bravo.x'']"
  by simp

lemma identity_alpha: "identity ''alpha.x'' = ''alpha''"
  by (simp add: identity_def find_def slice_to_def)

lemma identity_bravo: "identity ''bravo.x'' = ''bravo''"
  by (simp add: identity_def find_def slice_to_def)

lemma hex_address_0: "hex (address 0) = ''0x80400000''"
  by code_simp

lemma hex_address_1: "hex (address 1) = ''0x80420000''"
  by code_simp

subsection \<open>The parts between the occurrences\<close>

lemma pieces_nonempty: "pieces old s \<noteq> []"
  by (induction old s rule: pieces.induct) (auto split: list.splits)

lemma join_Cons: "ps \<noteq> [] \<Longrightarrow> join sep (p # ps) = p @ sep @ join sep ps"
  by (cases ps) simp_all

lemma join_Cons_Cons: "join sep ((c # p) # ps) = c # join sep (p # ps)"
  by (cases ps) simp_all

lemma join_pieces_replace: "old \<noteq> [] \<Longrightarrow> join new (pieces old s) = replace old new s"
proof (induction old s rule: pieces.induct)
  case (1 old)
  then show ?case by simp
next
  case (2 old c cs)
  show ?case
  proof (cases "take (length old) (c # cs) = old")
    case True
    with 2 show ?thesis
      by (simp add: join_Cons pieces_nonempty)
  next
    case False
    obtain p ps where p: "pieces old cs = p # ps"
      using pieces_nonempty [of old cs] by (cases "pieces old cs") auto
    with 2 False show ?thesis
      by (simp add: join_Cons_Cons)
  qed
qed

lemma join_pieces_id: "join old (pieces old s) = s"
proof (induction old s rule: pieces.induct)
  case (1 old)
  show ?case by simp
next
  case (2 old c cs)
  show ?case
  proof (cases "old \<noteq> [] \<and> take (length old) (c # cs) = old")
    case True
    then have "join old (pieces old (drop (length old) (c # cs))) = drop (length old) (c # cs)"
      using 2 by simp
    moreover have "old @ drop (length old) (c # cs) = c # cs"
      using True by (metis append_take_drop_id)
    ultimately show ?thesis
      using True by (simp add: join_Cons pieces_nonempty)
  next
    case False
    obtain p ps where p: "pieces old cs = p # ps"
      using pieces_nonempty [of old cs] by (cases "pieces old cs") auto
    have "join old (pieces old cs) = cs"
      using 2 False by blast
    with p False show ?thesis
      by (auto simp: join_Cons_Cons)
  qed
qed

lemma take_within: "n \<le> length xs \<Longrightarrow> take n (xs @ ys) = take n xs"
  by simp

lemma first_piece_prefix:
  assumes "pieces old s = p # ps"
  shows "\<exists>r. s = p @ r"
proof -
  have "join old (p # ps) = s"
    using assms join_pieces_id [of old s] by simp
  then show ?thesis
    by (cases ps) auto
qed

lemma pieces_free: "old \<noteq> [] \<Longrightarrow> list_all (\<lambda>p. \<not> contains p old) (pieces old s)"
proof (induction old s rule: pieces.induct)
  case (1 old)
  then show ?case by simp
next
  case (2 old c cs)
  show ?case
  proof (cases "take (length old) (c # cs) = old")
    case True
    with 2 show ?thesis by simp
  next
    case False
    obtain p ps where p: "pieces old cs = p # ps"
      using pieces_nonempty [of old cs] by (cases "pieces old cs") auto
    then obtain r where r: "cs = p @ r"
      using first_piece_prefix by blast
    have ih: "list_all (\<lambda>p. \<not> contains p old) (p # ps)"
      using 2 False p by simp
    have "take (length old) (c # p) \<noteq> old"
    proof
      assume t: "take (length old) (c # p) = old"
      then have "length (take (length old) (c # p)) = length old"
        by simp
      then have "length old \<le> length (c # p)"
        by simp
      then have "take (length old) (c # p @ r) = take (length old) (c # p)"
        using take_within [of "length old" "c # p" r] by simp
      with t r False show False by simp
    qed
    with ih p False show ?thesis by simp
  qed
qed

lemma universal_newlines_free: "CHR 0x0D \<notin> set (universal_newlines s)"
  by (induction s rule: universal_newlines.induct) auto

lemma universal_newlines_id: "CHR 0x0D \<notin> set s \<Longrightarrow> universal_newlines s = s"
  by (induction s rule: universal_newlines.induct) auto

lemma universal_newlines_idem: "universal_newlines (universal_newlines s) = universal_newlines s"
  by (rule universal_newlines_id) (rule universal_newlines_free)

lemma patched_pieces:
  "patched k t = join (hex (address k)) (pieces (hex base_address) t)"
  by (simp add: patched_def join_pieces_replace hex_base_address)

lemma pieces_linker_ld:
  "pieces ''0x80400000'' linker_ld
     = [''OUTPUT_ARCH(riscv)\<newline>BASE_ADDRESS = '', '';\<newline>SECTIONS\<newline>'']"
  by (simp add: linker_ld_def)

subsection \<open>The script on the bytes of the file\<close>

lemma body_on_disk_ok:
  assumes "con (report_line (identity n) (hex (address k)))"
  shows "body_on_disk con sys n k w =
     Inr (k + 1, w\<lparr>linker_file := universal_newlines (linker_file w),
        trace := trace w @
        [System (build_command (identity n)) (patched k (universal_newlines (linker_file w)))
                (sys (build_command (identity n)) (patched k (universal_newlines (linker_file w)))),
         Print (report_line (identity n) (hex (address k)))]\<rparr>)"
  using assms
  by (simp add: body_on_disk_def read_loop_eq address_eq patched_lines concat_readlines
        writelines_def os_system_def print_def Let_def)

lemma body_on_disk_raises:
  assumes "\<not> con (report_line (identity n) (hex (address k)))"
  shows "body_on_disk con sys n k w =
     Inl (UnicodeEncodeError, w\<lparr>linker_file := patched k (universal_newlines (linker_file w)),
        trace := trace w @
        [System (build_command (identity n)) (patched k (universal_newlines (linker_file w)))
                (sys (build_command (identity n)) (patched k (universal_newlines (linker_file w))))]\<rparr>)"
  using assms
  by (simp add: body_on_disk_def read_loop_eq address_eq patched_lines
        writelines_def os_system_def Let_def)

lemma main_loop_on_disk_ok:
  "list_all con (reports ns k) \<Longrightarrow>
   main_loop_on_disk con sys ns k w =
     Inr (k + int (length ns),
          w\<lparr>linker_file := (if ns = [] then linker_file w else universal_newlines (linker_file w)),
            trace := trace w @ expected sys (universal_newlines (linker_file w)) ns k\<rparr>)"
proof (induction ns arbitrary: k w)
  case Nil
  show ?case by simp
next
  case (Cons n ns)
  then have c: "con (report_line (identity n) (hex (address k)))"
    and r: "list_all con (reports ns (k + 1))"
    by simp_all
  have "body_on_disk con sys n k w =
     Inr (k + 1, w\<lparr>linker_file := universal_newlines (linker_file w),
        trace := trace w @
        [System (build_command (identity n)) (patched k (universal_newlines (linker_file w)))
                (sys (build_command (identity n)) (patched k (universal_newlines (linker_file w)))),
         Print (report_line (identity n) (hex (address k)))]\<rparr>)"
    using c by (rule body_on_disk_ok)
  then show ?case
    using Cons.IH [OF r] by (simp add: universal_newlines_idem)
qed

lemma sort_Nil_iff: "sort xs = [] \<longleftrightarrow> xs = []"
  by (metis length_sort length_0_conv)

lemma main_on_disk_ok:
  "list_all con (reports (sort listing) 0) \<Longrightarrow>
   main_on_disk con sys listing w =
     Inr (w\<lparr>linker_file := (if listing = [] then linker_file w else universal_newlines (linker_file w)),
            trace := trace w @ expected sys (universal_newlines (linker_file w)) (sort listing) 0\<rparr>)"
  by (simp add: main_on_disk_def main_loop_on_disk_ok sort_Nil_iff)

lemma main_on_disk_refines:
  assumes "CHR 0x0D \<notin> set (linker_file w)" "list_all con (reports (sort listing) 0)"
  shows "main_on_disk con sys listing w = Inr (main sys listing w)"
  using assms by (simp add: main_on_disk_ok main_eq universal_newlines_id)

lemma console_ascii_alpha:
  "console_ascii ''[build.py] application alpha start with address 0x80400000''"
  by (simp add: console_ascii_def)

lemma console_ascii_bravo:
  "console_ascii ''[build.py] application bravo start with address 0x80420000''"
  by (simp add: console_ascii_def)

lemma reports_example:
  "reports (sort [''bravo.x'', ''alpha.x'']) 0
     = [''[build.py] application alpha start with address 0x80400000'',
        ''[build.py] application bravo start with address 0x80420000'']"
  by (simp add: sort_example identity_alpha identity_bravo report_line_def hex_address_0
        hex_address_1)

section \<open>The claims\<close>

text \<open>
  Claim C1, as stated, fails. The script opens the linker script in text mode
  (lines 21, 31 and 36): a script whose lines end with carriage return and line feed is
  read with line feeds only and written back with line feeds only, so after a run over
  one name its bytes are not the bytes it had before. And nothing catches an exception:
  when \<^verbatim>\<open>print\<close> raises at line 35 for the second of two names, the script ends
  with the linker script still patched for that application.
\<close>

theorem template_round_trip_counterexample:
  "raised (main_on_disk console_ascii build_ok [''alpha.x'']
             \<lparr>linker_file = linker_ld_crlf, trace = []\<rparr>) = None
   \<and> linker_file (left_behind (main_on_disk console_ascii build_ok [''alpha.x'']
             \<lparr>linker_file = linker_ld_crlf, trace = []\<rparr>)) \<noteq> linker_ld_crlf
   \<and> raised (main_on_disk console_ascii build_ok [''a.rs'', name_beyond_ascii]
             \<lparr>linker_file = linker_ld, trace = []\<rparr>) = Some UnicodeEncodeError
   \<and> linker_file (left_behind (main_on_disk console_ascii build_ok [''a.rs'', name_beyond_ascii]
             \<lparr>linker_file = linker_ld, trace = []\<rparr>)) \<noteq> linker_ld"
proof -
  have r1: "list_all console_ascii (reports (sort [''alpha.x'']) 0)"
    using console_ascii_alpha
    by (simp add: identity_alpha report_line_def hex_address_0)
  have u: "universal_newlines linker_ld_crlf = ''BASE_ADDRESS = 0x80400000;\<newline>''"
    by (simp add: linker_ld_crlf_def)
  have first: "raised (main_on_disk console_ascii build_ok [''alpha.x'']
             \<lparr>linker_file = linker_ld_crlf, trace = []\<rparr>) = None
   \<and> linker_file (left_behind (main_on_disk console_ascii build_ok [''alpha.x'']
             \<lparr>linker_file = linker_ld_crlf, trace = []\<rparr>)) \<noteq> linker_ld_crlf"
    by (simp add: main_on_disk_ok [OF r1] u) (simp add: linker_ld_crlf_def)
  have s: "sort [''a.rs'', name_beyond_ascii] = [''a.rs'', name_beyond_ascii]"
    by (simp add: name_beyond_ascii_def)
  have ia: "identity ''a.rs'' = ''a''"
    by (simp add: identity_def find_def slice_to_def)
  have ib: "identity name_beyond_ascii = ''b'' @ [CHR 0xE9]"
    by (simp add: identity_def find_def slice_to_def name_beyond_ascii_def)
  have ca: "console_ascii (report_line (identity ''a.rs'') (hex (address 0)))"
    by (simp add: ia report_line_def hex_address_0 console_ascii_def)
  have cb: "\<not> console_ascii (report_line (identity name_beyond_ascii) (hex (address (0 + 1))))"
    by (simp add: ib report_line_def hex_address_1 console_ascii_def)
  have ul: "universal_newlines linker_ld = linker_ld"
    by (rule universal_newlines_id) (simp add: linker_ld_def)
  have p1: "patched 1 linker_ld
      = ''OUTPUT_ARCH(riscv)\<newline>BASE_ADDRESS = 0x80420000;\<newline>SECTIONS\<newline>''"
    by (simp add: patched_def hex_base_address hex_address_1 linker_ld_def)
  have second: "raised (main_on_disk console_ascii build_ok [''a.rs'', name_beyond_ascii]
             \<lparr>linker_file = linker_ld, trace = []\<rparr>) = Some UnicodeEncodeError
   \<and> linker_file (left_behind (main_on_disk console_ascii build_ok [''a.rs'', name_beyond_ascii]
             \<lparr>linker_file = linker_ld, trace = []\<rparr>)) \<noteq> linker_ld"
    unfolding main_on_disk_def s
    using ca cb
    by (simp add: body_on_disk_ok body_on_disk_raises ul p1)
       (simp add: linker_ld_def)
  from first second show ?thesis by simp
qed

text \<open>
  Claim C1, amended. Take a run in which the console can encode every report line.
  The run raises nothing, and the linker script it leaves behind is the script as text
  mode reads it, that is with every carriage return and line feed pair and every lone
  carriage return turned into a line feed; so a script without carriage returns has,
  after the run, byte for byte the content it had before, and with an empty listing the
  script is not touched at all. After every round of the loop whose report line the
  console can encode, the linker script is again the script as text mode read it at the
  start of the round, so the next round starts from it. All of this holds for every
  builder, whether the build succeeds or fails.
\<close>

theorem template_restored_as_read:
  assumes "list_all con (reports (sort listing) 0)"
  shows "raised (main_on_disk con sys listing w) = None
   \<and> linker_file (left_behind (main_on_disk con sys listing w))
       = (if listing = [] then linker_file w else universal_newlines (linker_file w))
   \<and> (CHR 0x0D \<notin> set (linker_file w) \<longrightarrow>
        linker_file (left_behind (main_on_disk con sys listing w)) = linker_file w)
   \<and> (con (report_line (identity app) (hex (address app_id))) \<longrightarrow>
        round_raised (body_on_disk con sys app app_id w) = None
        \<and> linker_file (round_left_behind (body_on_disk con sys app app_id w))
            = universal_newlines (linker_file w))
   \<and> main_on_disk con sys [] w = Inr w"
proof -
  have "main_on_disk con sys [] w = Inr w"
    by (simp add: main_on_disk_def)
  then show ?thesis
    using assms
    by (simp add: main_on_disk_ok body_on_disk_ok universal_newlines_id)
qed

theorem template_restored_as_read_witness:
  "list_all console_ascii (reports (sort [''bravo.x'', ''alpha.x'']) 0)
   \<and> CHR 0x0D \<notin> set (linker_file \<lparr>linker_file = linker_ld, trace = []\<rparr>)
   \<and> console_ascii (report_line (identity ''alpha.x'') (hex (address 0)))
   \<and> raised (main_on_disk console_ascii build_fails [''bravo.x'', ''alpha.x'']
               \<lparr>linker_file = linker_ld, trace = []\<rparr>) = None
   \<and> linker_file (left_behind (main_on_disk console_ascii build_fails [''bravo.x'', ''alpha.x'']
               \<lparr>linker_file = linker_ld, trace = []\<rparr>)) = linker_ld
   \<and> linker_file (round_left_behind (body_on_disk console_ascii build_fails ''alpha.x'' 0
               \<lparr>linker_file = linker_ld, trace = []\<rparr>)) = linker_ld"
proof -
  have h: "list_all console_ascii (reports (sort [''bravo.x'', ''alpha.x'']) 0)"
    by (simp only: reports_example) (simp add: console_ascii_alpha console_ascii_bravo)
  have c: "CHR 0x0D \<notin> set (linker_file \<lparr>linker_file = linker_ld, trace = []\<rparr>)"
    by (simp add: linker_ld_def)
  have a: "console_ascii (report_line (identity ''alpha.x'') (hex (address 0)))"
    using console_ascii_alpha by (simp add: identity_alpha hex_address_0 report_line_def)
  have u: "universal_newlines linker_ld = linker_ld"
    using c by (simp add: universal_newlines_id)
  show ?thesis
    using h c a u
      template_restored_as_read [OF h, of build_fails "\<lparr>linker_file = linker_ld, trace = []\<rparr>"
        "''alpha.x''" 0]
    by simp
qed



text \<open>
  Claim C3. The linker script that the build of the application with ordinal \<^verbatim>\<open>k\<close> finds
  on disk is the original script with every occurrence of the base address literal
  \<^verbatim>\<open>0x80400000\<close> replaced by the literal of \<^verbatim>\<open>address k\<close>. Said without
  \<^verbatim>\<open>replace\<close>: the original is its parts with \<^verbatim>\<open>0x80400000\<close> between each two of
  them, no part holds \<^verbatim>\<open>0x80400000\<close>, and what the build finds is the same parts with
  the literal of \<^verbatim>\<open>address k\<close> between each two of them. That literal starts with
  \<^verbatim>\<open>0x\<close>, continues with lowercase hexadecimal digits only, has no leading zero, and
  reads back as the address.
\<close>

theorem build_window_content:
  "seen (trace (main sys listing w))
     = seen (trace w)
       @ map (\<lambda>k. replace (hex base_address) (hex (address (int k))) (linker_file w))
           [0..<length listing]
   \<and> seen (trace (main sys listing w))
     = seen (trace w)
       @ map (\<lambda>k. join (hex (address (int k))) (pieces ''0x80400000'' (linker_file w)))
           [0..<length listing]
   \<and> join ''0x80400000'' (pieces ''0x80400000'' (linker_file w)) = linker_file w
   \<and> list_all (\<lambda>p. \<not> contains p ''0x80400000'') (pieces ''0x80400000'' (linker_file w))
   \<and> hex base_address = ''0x80400000''
   \<and> take 2 (hex (address (int k))) = ''0x''
   \<and> set (drop 2 (hex (address (int k)))) \<subseteq> set ''0123456789abcdef''
   \<and> hd (drop 2 (hex (address (int k)))) \<noteq> CHR ''0''
   \<and> hex_value (drop 2 (hex (address (int k)))) = address (int k)"
proof -
  have pos: "0 < address (int k)" by (rule address_positive)
  have s: "seen (trace (main sys listing w))
     = seen (trace w) @ map (\<lambda>k. patched (int k) (linker_file w)) [0..<length listing]"
    by (simp add: main_eq seen_append seen_expected)
  have "seen (trace (main sys listing w))
     = seen (trace w)
       @ map (\<lambda>k. replace (hex base_address) (hex (address (int k))) (linker_file w))
           [0..<length listing]"
    using s by (simp add: patched_def)
  moreover have "seen (trace (main sys listing w))
     = seen (trace w)
       @ map (\<lambda>k. join (hex (address (int k))) (pieces ''0x80400000'' (linker_file w)))
           [0..<length listing]"
    using s by (simp add: patched_pieces hex_base_address)
  moreover have "join ''0x80400000'' (pieces ''0x80400000'' (linker_file w)) = linker_file w"
    by (rule join_pieces_id)
  moreover have "list_all (\<lambda>p. \<not> contains p ''0x80400000'') (pieces ''0x80400000'' (linker_file w))"
    by (rule pieces_free) simp
  moreover have "set (drop 2 (hex (address (int k)))) \<subseteq> set ''0123456789abcdef''"
    using hex_digits_lowercase [of "address (int k)"] pos by (simp add: hex_address)
  moreover have "hd (drop 2 (hex (address (int k)))) \<noteq> CHR ''0''"
    using hex_digits_no_padding [OF pos] by (simp add: hex_address)
  moreover have "hex_value (drop 2 (hex (address (int k)))) = address (int k)"
    using hex_value_hex_digits [of "address (int k)"] pos by (simp add: hex_address)
  ultimately show ?thesis
    by (simp add: hex_base_address hex_address)
qed

theorem build_window_content_witness:
  "seen (trace (main build_ok [''bravo.x'', ''alpha.x''] \<lparr>linker_file = linker_ld, trace = []\<rparr>))
     = [''OUTPUT_ARCH(riscv)\<newline>BASE_ADDRESS = 0x80400000;\<newline>SECTIONS\<newline>'',
        ''OUTPUT_ARCH(riscv)\<newline>BASE_ADDRESS = 0x80420000;\<newline>SECTIONS\<newline>'']
   \<and> pieces ''0x80400000'' linker_ld
     = [''OUTPUT_ARCH(riscv)\<newline>BASE_ADDRESS = '', '';\<newline>SECTIONS\<newline>'']
   \<and> hex (address (int 1)) = ''0x80420000''"
proof -
  have u: "[0..<length [''bravo.x'', ''alpha.x'']] = [0, 1]"
    by (simp add: upt_rec)
  have "seen (trace (main build_ok [''bravo.x'', ''alpha.x''] \<lparr>linker_file = linker_ld, trace = []\<rparr>))
     = seen (trace \<lparr>linker_file = linker_ld, trace = []\<rparr>)
       @ map (\<lambda>k. join (hex (address (int k)))
                 (pieces ''0x80400000'' (linker_file \<lparr>linker_file = linker_ld, trace = []\<rparr>)))
           [0..<length [''bravo.x'', ''alpha.x'']]"
    using build_window_content [of build_ok "[''bravo.x'', ''alpha.x'']"
        "\<lparr>linker_file = linker_ld, trace = []\<rparr>" 1]
    by (rule conjunct2 [THEN conjunct1])
  then show ?thesis
    by (simp only: u) (simp add: pieces_linker_ld hex_address_0 hex_address_1)
qed

text \<open>
  Claim C4, as stated, fails. The script sorts the names of the listing and takes the
  identity of each name afterwards, in the loop. For the names \<^verbatim>\<open>a.rs\<close> and
  \<^verbatim>\<open>a-b.rs\<close> the identities are taken in the order \<^verbatim>\<open>a-b\<close>, \<^verbatim>\<open>a\<close>, which is not
  sorted, and the identity \<^verbatim>\<open>a\<close>, the first in sorted order, gets ordinal 1; for the
  names \<^verbatim>\<open>a.rs\<close> and \<^verbatim>\<open>a.txt\<close> the same identity is taken twice.
\<close>

theorem identities_sorted_counterexample:
  "\<not> (sorted (processed [''a.rs'', ''a-b.rs'']) \<and> distinct (processed [''a.rs'', ''a-b.rs'']))
   \<and> \<not> (sorted (processed [''a.rs'', ''a.txt'']) \<and> distinct (processed [''a.rs'', ''a.txt'']))
   \<and> prints (trace (main build_ok [''a.rs'', ''a-b.rs''] \<lparr>linker_file = linker_ld, trace = []\<rparr>))
       = [''[build.py] application a-b start with address 0x80400000'',
          ''[build.py] application a start with address 0x80420000'']"
proof -
  have s: "sort [''a.rs'', ''a-b.rs''] = [''a-b.rs'', ''a.rs'']" by simp
  have i1: "identity ''a-b.rs'' = ''a-b''" by (simp add: identity_def find_def slice_to_def)
  have i2: "identity ''a.rs'' = ''a''" by (simp add: identity_def find_def slice_to_def)
  have i3: "identity ''a.txt'' = ''a''" by (simp add: identity_def find_def slice_to_def)
  have "\<not> sorted (processed [''a.rs'', ''a-b.rs''])"
    by (simp add: processed_def s i1 i2)
  moreover have "\<not> distinct (processed [''a.rs'', ''a.txt''])"
    by (simp add: processed_def i2 i3)
  moreover have "prints (trace (main build_ok [''a.rs'', ''a-b.rs''] \<lparr>linker_file = linker_ld, trace = []\<rparr>))
       = [''[build.py] application a-b start with address 0x80400000'',
          ''[build.py] application a start with address 0x80420000'']"
    by (simp add: main_eq s i1 i2 report_line_def hex_address_0 hex_address_1)
  ultimately show ?thesis by simp
qed

text \<open>
  Claim C4, amended. The loop runs over the names of the listing sorted
  lexicographically as names: the same names, each as often as in the listing, so
  without duplicates when the listing has none. The identity is derived from each name
  in that order, and the ordinal of an application is the position of its name in the
  sorted list of names: the command at position \<^verbatim>\<open>k\<close> builds the identity of the
  \<^verbatim>\<open>k\<close>-th sorted name and the report at position \<^verbatim>\<open>k\<close> carries the address of
  ordinal \<^verbatim>\<open>k\<close>.
\<close>

theorem names_sorted_then_stripped:
  "sorted (sort listing) \<and> mset (sort listing) = mset listing
   \<and> distinct (sort listing) = distinct listing
   \<and> processed listing = map identity (sort listing)
   \<and> commands (trace (main sys listing w))
       = commands (trace w) @ map build_command (processed listing)
   \<and> prints (trace (main sys listing w))
       = prints (trace w)
         @ map (\<lambda>k. report_line (identity (sort listing ! k)) (hex (address (int k))))
             [0..<length listing]"
  by (simp add: main_eq commands_append commands_expected prints_append prints_expected
        processed_def)

text \<open>
  Claim C5. The exit status of the build is not used. For every builder a round of
  the loop still prints the report line with the assigned address, writes the linker
  script back and increments the ordinal; and a whole run leaves the same linker script,
  prints the same lines, runs the same commands on the same patched scripts as a run in
  which every build succeeds. When every build fails, every application of the listing
  is still built.
\<close>

theorem failed_build_ignored:
  "fst (body sys app app_id w) = app_id + 1
   \<and> linker_file (snd (body sys app app_id w)) = linker_file w
   \<and> prints (trace (snd (body sys app app_id w)))
       = prints (trace w) @ [report_line (identity app) (hex (address app_id))]
   \<and> statuses (trace (snd (body sys app app_id w)))
       = statuses (trace w) @ [sys (build_command (identity app)) (patched app_id (linker_file w))]
   \<and> linker_file (main sys listing w) = linker_file (main build_ok listing w)
   \<and> prints (trace (main sys listing w)) = prints (trace (main build_ok listing w))
   \<and> commands (trace (main sys listing w)) = commands (trace (main build_ok listing w))
   \<and> seen (trace (main sys listing w)) = seen (trace (main build_ok listing w))
   \<and> statuses (trace (main build_fails listing w))
       = statuses (trace w) @ replicate (length listing) 1"
  by (simp add: body_eq main_eq prints_append commands_append seen_append statuses_append
        prints_expected commands_expected seen_expected statuses_expected build_fails_def
        map_replicate_const)

text \<open>
  Claim C6 says that the identity is the part of the name before its first full stop.
  For a name without a full stop \<^verbatim>\<open>find\<close> returns \<^verbatim>\<open>-1\<close> and the slice drops the
  last character: the name \<^verbatim>\<open>foo\<close> yields \<^verbatim>\<open>fo\<close>, where the part before the first
  separator is \<^verbatim>\<open>foo\<close>. The lemma \<^verbatim>\<open>identity_with_separator\<close> above shows that the two
  agree on every name that has a full stop.
\<close>

theorem identity_drops_last_example:
  "identity ''foo'' = ''fo'' \<and> before_first_separator ''foo'' = ''foo''"
  by (simp add: identity_def find_def slice_to_def before_first_separator_def)

text \<open>
  Claim C7. Two listings with the same names in different orders give the same sorted
  list, hence the same identities in the same order with the same ordinals, and the same
  run; the console lines, the commands and the patched scripts are the same even when
  the builds of the two runs end differently.
\<close>

theorem order_of_listing_irrelevant:
  assumes "mset listing1 = mset listing2"
  shows "processed listing1 = processed listing2
   \<and> main sys listing1 w = main sys listing2 w
   \<and> prints (trace (main sys1 listing1 w)) = prints (trace (main sys2 listing2 w))
   \<and> commands (trace (main sys1 listing1 w)) = commands (trace (main sys2 listing2 w))
   \<and> seen (trace (main sys1 listing1 w)) = seen (trace (main sys2 listing2 w))"
proof -
  have "sort listing1 = sort listing2"
    using assms by (rule sort_permuted)
  then show ?thesis
    by (simp add: processed_def main_eq prints_append commands_append seen_append
          prints_expected commands_expected seen_expected)
qed

theorem order_of_listing_irrelevant_witness:
  "mset [''bravo.x'', ''alpha.x''] = mset [''alpha.x'', ''bravo.x'']
   \<and> processed [''bravo.x'', ''alpha.x''] = processed [''alpha.x'', ''bravo.x'']
   \<and> main build_ok [''bravo.x'', ''alpha.x''] \<lparr>linker_file = linker_ld, trace = []\<rparr>
     = main build_ok [''alpha.x'', ''bravo.x''] \<lparr>linker_file = linker_ld, trace = []\<rparr>
   \<and> prints (trace (main build_ok [''bravo.x'', ''alpha.x''] \<lparr>linker_file = linker_ld, trace = []\<rparr>))
     = prints (trace (main build_fails [''alpha.x'', ''bravo.x''] \<lparr>linker_file = linker_ld, trace = []\<rparr>))"
proof -
  have h: "mset [''bravo.x'', ''alpha.x''] = mset [''alpha.x'', ''bravo.x'']"
    by simp
  show ?thesis
    using h order_of_listing_irrelevant [OF h, of build_ok "\<lparr>linker_file = linker_ld, trace = []\<rparr>" build_ok build_fails]
    by blast
qed

text \<open>
  Claim C8, as stated, fails in the text of the report lines: the script prints each
  line with the tag \<^verbatim>\<open>[build.py] \<close> in front, so the console does not hold exactly
  the lines \<^verbatim>\<open>application alpha start with address 0x80400000\<close> and
  \<^verbatim>\<open>application bravo start with address 0x80420000\<close>.
\<close>

theorem report_lines_counterexample:
  "prints (trace (main build_ok [''bravo.x'', ''alpha.x''] \<lparr>linker_file = linker_ld, trace = []\<rparr>))
     \<noteq> [''application alpha start with address 0x80400000'',
         ''application bravo start with address 0x80420000'']"
  by (simp add: main_eq sort_example identity_alpha report_line_def)

text \<open>
  Claim C8, amended. For the names \<^verbatim>\<open>bravo.x\<close> and \<^verbatim>\<open>alpha.x\<close>, listed in either
  order, the identities are taken in the order \<^verbatim>\<open>alpha\<close>, \<^verbatim>\<open>bravo\<close>; \<^verbatim>\<open>alpha\<close> has
  ordinal 0 and address \<^verbatim>\<open>0x80400000\<close>, \<^verbatim>\<open>bravo\<close> has ordinal 1 and address
  \<^verbatim>\<open>0x80420000\<close>; the run prints exactly the two lines
  \<^verbatim>\<open>[build.py] application alpha start with address 0x80400000\<close> and
  \<^verbatim>\<open>[build.py] application bravo start with address 0x80420000\<close>, in this order, and
  the linker script is the same before and after the run.
\<close>

theorem example_run:
  "processed [''bravo.x'', ''alpha.x''] = [''alpha'', ''bravo'']
   \<and> processed [''alpha.x'', ''bravo.x''] = [''alpha'', ''bravo'']
   \<and> address 0 = 0x80400000 \<and> address 1 = 0x80420000
   \<and> prints (trace (main sys [''bravo.x'', ''alpha.x''] w))
       = prints (trace w)
         @ [''[build.py] application alpha start with address 0x80400000'',
            ''[build.py] application bravo start with address 0x80420000'']
   \<and> prints (trace (main sys [''alpha.x'', ''bravo.x''] w))
       = prints (trace w)
         @ [''[build.py] application alpha start with address 0x80400000'',
            ''[build.py] application bravo start with address 0x80420000'']
   \<and> commands (trace (main sys [''bravo.x'', ''alpha.x''] w))
       = commands (trace w)
         @ [''cargo build --bin alpha --release'', ''cargo build --bin bravo --release'']
   \<and> linker_file (main sys [''bravo.x'', ''alpha.x''] w) = linker_file w
   \<and> linker_file (main sys [''alpha.x'', ''bravo.x''] w) = linker_file w"
proof -
  have a: "address 0 = 0x80400000 \<and> address 1 = 0x80420000"
    by (simp add: address_def base_address_def step_def)
  have p: "prints (expected sys (linker_file w) [''alpha.x'', ''bravo.x''] 0)
       = [''[build.py] application alpha start with address 0x80400000'',
          ''[build.py] application bravo start with address 0x80420000'']"
    by (simp add: identity_alpha identity_bravo report_line_def hex_address_0 hex_address_1)
  have c: "commands (expected sys (linker_file w) [''alpha.x'', ''bravo.x''] 0)
       = [''cargo build --bin alpha --release'', ''cargo build --bin bravo --release'']"
    by (simp add: identity_alpha identity_bravo build_command_def)
  show ?thesis
    using a p c
    by (simp add: processed_def main_eq sort_example sort_example_sorted identity_alpha
          identity_bravo prints_append commands_append del: expected.simps)
qed

lemma linker_ld_upper_absent: "\<not> contains linker_ld_upper (hex base_address)"
  by (simp add: hex_base_address linker_ld_upper_def)

text \<open>
  Claim C9. When the base address literal \<^verbatim>\<open>0x80400000\<close> does not occur in the linker
  script, for instance because the script spells it \<^verbatim>\<open>0X80400000\<close>, the patched script
  is the script itself: every build finds the unchanged script on disk, every
  application of the listing is still built and reported, and the run ends with the
  script unchanged.
\<close>

theorem literal_absent_no_patch:
  assumes "\<not> contains (linker_file w) (hex base_address)"
  shows "patched k (linker_file w) = linker_file w
   \<and> seen (trace (main sys listing w)) = seen (trace w) @ replicate (length listing) (linker_file w)
   \<and> commands (trace (main sys listing w))
       = commands (trace w) @ map build_command (processed listing)
   \<and> length (prints (trace (main sys listing w))) = length (prints (trace w)) + length listing
   \<and> linker_file (main sys listing w) = linker_file w"
proof -
  have "patched i (linker_file w) = linker_file w" for i
    using assms by (simp add: patched_def replace_absent)
  then show ?thesis
    by (simp add: main_eq seen_append seen_expected commands_append commands_expected
          prints_append prints_expected processed_def map_replicate_const)
qed

theorem literal_absent_no_patch_witness:
  "\<not> contains (linker_file \<lparr>linker_file = linker_ld_upper, trace = []\<rparr>) (hex base_address)
   \<and> seen (trace (main build_ok [''bravo.x'', ''alpha.x''] \<lparr>linker_file = linker_ld_upper, trace = []\<rparr>))
       = [linker_ld_upper, linker_ld_upper]
   \<and> commands (trace (main build_ok [''bravo.x'', ''alpha.x''] \<lparr>linker_file = linker_ld_upper, trace = []\<rparr>))
       = [''cargo build --bin alpha --release'', ''cargo build --bin bravo --release'']"
proof -
  have h: "\<not> contains (linker_file \<lparr>linker_file = linker_ld_upper, trace = []\<rparr>) (hex base_address)"
    using linker_ld_upper_absent by simp
  have r: "replicate (length [''bravo.x'', ''alpha.x'']) linker_ld_upper = [linker_ld_upper, linker_ld_upper]"
    by (simp add: numeral_2_eq_2)
  have p: "map build_command (processed [''bravo.x'', ''alpha.x''])
     = [''cargo build --bin alpha --release'', ''cargo build --bin bravo --release'']"
    by (simp add: processed_def sort_example identity_alpha identity_bravo build_command_def)
  show ?thesis
    using h r p literal_absent_no_patch [OF h, of 0 build_ok "[''bravo.x'', ''alpha.x'']"]
    by simp
qed

text \<open>
  Claim C10. For a name without a full stop the identity is the name without its last
  character, so it differs from the name unless the name is empty.
\<close>

theorem name_without_separator:
  assumes "CHR ''.'' \<notin> set name"
  shows "identity name = butlast name \<and> (identity name = name) = (name = [])"
proof -
  have b: "identity name = butlast name"
    using assms by (rule identity_without_separator)
  have "butlast name \<noteq> name" if "name \<noteq> []"
    using that by (metis length_butlast length_greater_0_conv diff_less zero_less_one less_irrefl)
  then show ?thesis using b by auto
qed

theorem name_without_separator_witness:
  "CHR ''.'' \<notin> set ''foo'' \<and> identity ''foo'' = ''fo'' \<and> identity ''foo'' \<noteq> ''foo''"
proof -
  have h: "CHR ''.'' \<notin> set ''foo''" by simp
  show ?thesis using h name_without_separator [OF h] by simp
qed

end
